theory Spec2Isabelle
  imports Complex_Main
begin

section \<open>Clock values\<close>

text \<open>
  The service reads the clock with \<^verbatim>\<open>time.Now()\<close>. Every clock reading is an explicit
  argument of the function that makes it. An instant is a count of nanoseconds from the
  Unix epoch, a
  \<^verbatim>\<open>time.Duration\<close> is a count of nanoseconds held in 64 bits: \<^verbatim>\<open>Time.Sub\<close> saturates
  at the ends of that range, and \<^verbatim>\<open>Duration.Seconds\<close> divides by \<open>10\<^sup>9\<close>.
  A \<^verbatim>\<open>float64\<close> is modelled by a real number: finite values, no rounding.
\<close>

type_synonym time = int
type_synonym duration = int

definition maxDuration :: duration where
  "maxDuration = 9223372036854775807"

definition minDuration :: duration where
  "minDuration = - 9223372036854775808"

definition Sub :: "time \<Rightarrow> time \<Rightarrow> duration" where
  "Sub t u = (let d = t - u in
     if d > maxDuration then maxDuration else if d < minDuration then minDuration else d)"

definition Seconds :: "duration \<Rightarrow> real" where
  "Seconds d = real_of_int d / 1000000000"

text \<open>The zero value of \<^verbatim>\<open>time.Time\<close>: 1 January of the year 1, 00:00 UTC.\<close>

definition zeroTime :: time where
  "zeroTime = - 62135596800000000000"

definition After :: "time \<Rightarrow> time \<Rightarrow> bool" where
  "After t u = (t > u)"

definition Before :: "time \<Rightarrow> time \<Rightarrow> bool" where
  "Before t u = (t < u)"

section \<open>Rate limiter\<close>

record TokenBucket =
  tokens :: real
  capacity :: real
  fillRate :: real
  lastRefillTime :: time

text \<open>
  \<^verbatim>\<open>RateLimiter.limiters\<close> maps a client key to a pointer to its bucket. Each pointer is
  created by \<^verbatim>\<open>getLimiter\<close> for one key and stored under that key only, so no two keys
  share a bucket and the map from keys to bucket values is the whole heap. The fields
  \<^verbatim>\<open>capacity\<close> and \<^verbatim>\<open>fillRate\<close> of the limiter carry the prefix \<open>rl_\<close>, the bucket has
  fields of the same names.
\<close>

record RateLimiter =
  limiters :: "string \<rightharpoonup> TokenBucket"
  rl_capacity :: real
  rl_fillRate :: real

definition NewRateLimiter :: "real \<Rightarrow> real \<Rightarrow> RateLimiter" where
  "NewRateLimiter cap ratePerSecond =
     \<lparr>limiters = Map.empty, rl_capacity = cap, rl_fillRate = ratePerSecond\<rparr>"

text \<open>
  \<^verbatim>\<open>getLimiter\<close>: the first load, then (one caller at a time) the second load under the
  global lock, then the creation. \<open>now\<close> is the clock reading taken when the bucket is
  created. The result is the key's bucket and the limiter with the bucket stored.
\<close>

definition getLimiter :: "RateLimiter \<Rightarrow> string \<Rightarrow> time \<Rightarrow> TokenBucket \<times> RateLimiter" where
  "getLimiter rl clientID now =
     (case limiters rl clientID of
        Some limiter \<Rightarrow> (limiter, rl)
      | None \<Rightarrow>
          (case limiters rl clientID of
             Some limiter \<Rightarrow> (limiter, rl)
           | None \<Rightarrow>
               (let bucket = \<lparr>tokens = rl_capacity rl, capacity = rl_capacity rl,
                              fillRate = rl_fillRate rl, lastRefillTime = now\<rparr>
                in (bucket, rl\<lparr>limiters := (limiters rl)(clientID \<mapsto> bucket)\<rparr>))))"

definition refill :: "time \<Rightarrow> TokenBucket \<Rightarrow> TokenBucket" where
  "refill now tb =
     (let elapsedTime = Seconds (Sub now (lastRefillTime tb));
          tokensToAdd = elapsedTime * fillRate tb
      in if tokensToAdd > 0
         then (let tb1 = tb\<lparr>tokens := tokens tb + tokensToAdd\<rparr>;
                   tb2 = (if tokens tb1 > capacity tb1
                          then tb1\<lparr>tokens := capacity tb1\<rparr> else tb1)
               in tb2\<lparr>lastRefillTime := now\<rparr>)
         else tb)"

definition Allow :: "time \<Rightarrow> TokenBucket \<Rightarrow> TokenBucket \<times> bool" where
  "Allow now tb =
     (let tb1 = refill now tb
      in if tokens tb1 \<ge> 1 then (tb1\<lparr>tokens := tokens tb1 - 1\<rparr>, True) else (tb1, False))"

text \<open>
  \<^verbatim>\<open>IsAllowed\<close> reads the clock twice: \<open>t_get\<close> in \<^verbatim>\<open>getLimiter\<close> (used only when the
  bucket is created) and \<open>t_allow\<close> in \<^verbatim>\<open>refill\<close>. \<^verbatim>\<open>Allow\<close> mutates the bucket the map
  points to, so the updated bucket is written back under the key.
\<close>

definition IsAllowed :: "RateLimiter \<Rightarrow> string \<Rightarrow> time \<Rightarrow> time \<Rightarrow> RateLimiter \<times> bool" where
  "IsAllowed rl clientID t_get t_allow =
     (let (limiter, rl1) = getLimiter rl clientID t_get;
          (limiter1, ok) = Allow t_allow limiter
      in (rl1\<lparr>limiters := (limiters rl1)(clientID \<mapsto> limiter1)\<rparr>, ok))"

text \<open>A sequence of calls: each is a key and the two clock readings of that call.\<close>

fun run_calls :: "RateLimiter \<Rightarrow> (string \<times> time \<times> time) list \<Rightarrow> RateLimiter" where
  "run_calls rl [] = rl"
| "run_calls rl ((k, t_get, t_allow) # cs) = run_calls (fst (IsAllowed rl k t_get t_allow)) cs"

definition bucket_bound :: "TokenBucket \<Rightarrow> bool" where
  "bucket_bound tb = (0 \<le> tokens tb \<and> tokens tb \<le> capacity tb)"

section \<open>Token service\<close>

text \<open>
  The Go error values of the source, and the two run-time panics its statements can raise:
  an index out of range, and the one-result type assertion \<^verbatim>\<open>item.(User)\<close> on a nil
  interface.
\<close>

datatype error = ErrNoToken | ErrTokenExpired | ErrRateLimited
  | PanicIndexOutOfRange | PanicNilInterface

record User =
  ClientSecret :: string
  Scopes :: "string list"
  Tokens :: "string list"

record TokenInfo =
  ClientID :: string
  AccessScope :: string
  ExpirationTime :: time

text \<open>
  The table \<^verbatim>\<open>token\<close> of the database, with the four columns the queries name. Its
  schema is not part of the source: a row list in the order in which \<^verbatim>\<open>QueryRow\<close> meets
  the rows (it takes the first match).
\<close>

record token_row =
  access_token :: string
  client_id :: string
  access_scope :: string
  expiration_time :: time

text \<open>
  The process state of the token service: the globals \<^verbatim>\<open>users\<close> and \<^verbatim>\<open>tokens\<close> (here
  \<open>tokens_cache\<close>, the bucket has a field \<open>tokens\<close>) and the table behind \<^verbatim>\<open>dbconn\<close>.
  A \<^verbatim>\<open>User\<close> loaded from \<^verbatim>\<open>users\<close> is a copy of the struct whose slices share their
  arrays with the stored value, so a write to \<^verbatim>\<open>user.Tokens[i]\<close> is a write to the stored
  value. The insert of \<^verbatim>\<open>AddToken\<close> and the query of \<^verbatim>\<open>CheckToken\<close> can fail; a failed
  query of \<^verbatim>\<open>get_token\<close> ends the process through \<^verbatim>\<open>log.Fatal\<close> and is outside the model.
\<close>

record store =
  users :: "string \<rightharpoonup> User"
  tokens_cache :: "string \<rightharpoonup> TokenInfo"
  token_table :: "token_row list"

definition get_token :: "time \<Rightarrow> string \<Rightarrow> string \<Rightarrow> store \<Rightarrow> string \<times> store" where
  "get_token now cid scope s =
     (case find (\<lambda>r. client_id r = cid \<and> access_scope r = scope) (token_table s) of
        None \<Rightarrow> ('''', s)
      | Some r \<Rightarrow>
          if Before (expiration_time r) now
          then ('''', s\<lparr>token_table :=
                         filter (\<lambda>r'. access_token r' \<noteq> access_token r) (token_table s)\<rparr>)
          else (access_token r, s))"

text \<open>
  The loop of \<^verbatim>\<open>AddToken\<close> over \<^verbatim>\<open>range user.Tokens\<close>, reading \<^verbatim>\<open>user.Scopes[i]\<close> first:
  the arguments are what is left of \<^verbatim>\<open>Scopes\<close> and of \<^verbatim>\<open>Tokens\<close> from index \<open>i\<close> on.
\<close>

fun AddToken_loop :: "string list \<Rightarrow> string list \<Rightarrow> string \<Rightarrow> error + string option" where
  "AddToken_loop scs [] scope = Inr None"
| "AddToken_loop [] (t # ts) scope = Inl PanicIndexOutOfRange"
| "AddToken_loop (sc # scs) (t # ts) scope =
     (if sc = scope \<and> t \<noteq> '''' then Inr (Some t) else AddToken_loop scs ts scope)"

text \<open>
  What the store answers to the \<^verbatim>\<open>insert ... returning access_token\<close>: an error, or the
  new row's token and expiration time, both produced by column defaults of the schema.
\<close>

datatype insert_result = InsertError | Inserted string time

text \<open>
  \<^verbatim>\<open>AddToken\<close>. \<open>now1\<close> and \<open>now2\<close> are the clock readings of its two calls of
  \<^verbatim>\<open>get_token\<close>.
\<close>

definition AddToken ::
  "time \<Rightarrow> time \<Rightarrow> string \<Rightarrow> string \<Rightarrow> insert_result \<Rightarrow> store \<Rightarrow> (error + string) \<times> store" where
  "AddToken now1 now2 cid scope ins s =
     (case (case users s cid of
              None \<Rightarrow> Inr None
            | Some user \<Rightarrow> AddToken_loop (Scopes user) (Tokens user) scope) of
        Inl e \<Rightarrow> (Inl e, s)
      | Inr (Some t) \<Rightarrow> (Inr t, s)
      | Inr None \<Rightarrow>
          (let (token, s1) = get_token now1 cid scope s
           in if token \<noteq> '''' then (Inr token, s1)
              else (case ins of
                      InsertError \<Rightarrow>
                        (let (token2, s2) = get_token now2 cid scope s1 in (Inr token2, s2))
                    | Inserted tok exp_time \<Rightarrow>
                        (Inr tok, s1\<lparr>token_table := token_table s1 @
                           [\<lparr>access_token = tok, client_id = cid, access_scope = scope,
                             expiration_time = exp_time\<rparr>]\<rparr>))))"

text \<open>
  The loop of \<^verbatim>\<open>CheckToken\<close> that sets the token of the first index whose scope matches.
\<close>

fun CheckToken_loop :: "string list \<Rightarrow> string list \<Rightarrow> string \<Rightarrow> string \<Rightarrow> error + string list" where
  "CheckToken_loop scs [] scope token = Inr []"
| "CheckToken_loop [] (t # ts) scope token = Inl PanicIndexOutOfRange"
| "CheckToken_loop (sc # scs) (t # ts) scope token =
     (if sc = scope then Inr (token # ts)
      else (case CheckToken_loop scs ts scope token of
              Inl e \<Rightarrow> Inl e
            | Inr ts' \<Rightarrow> Inr (t # ts')))"

text \<open>
  What happens to the query of \<^verbatim>\<open>CheckToken\<close>: the store answers it (with the first row of
  the token, or with \<^verbatim>\<open>pgx.ErrNoRows\<close>), or \<^verbatim>\<open>row.Scan\<close> fails with another error and
  leaves its destinations \<^verbatim>\<open>id\<close>, \<^verbatim>\<open>scope\<close> and \<^verbatim>\<open>exp_time\<close> at their zero values.
\<close>

datatype query_answer = Answered | Failed

definition zero_row :: token_row where
  "zero_row = \<lparr>access_token = '''', client_id = '''', access_scope = '''',
               expiration_time = zeroTime\<rparr>"

text \<open>
  \<^verbatim>\<open>CheckToken\<close>, in two parts as in the source: the look-up in the cache, which returns
  or falls through (dropping an entry that is no longer valid), and the query of the
  store. \<open>now1\<close> is the clock reading of the cache check, \<open>now2\<close> that of the check of the
  row. The source tests the error of \<^verbatim>\<open>row.Scan\<close> for \<^verbatim>\<open>pgx.ErrNoRows\<close> only: after any
  other error it goes on with the zero values, here the columns of \<open>zero_row\<close>.
\<close>

definition CheckToken_store ::
  "time \<Rightarrow> string \<Rightarrow> query_answer \<Rightarrow> store \<Rightarrow> (error + string \<times> string) \<times> store" where
  "CheckToken_store now2 token q s =
     (case (case q of
              Failed \<Rightarrow> Some zero_row
            | Answered \<Rightarrow> find (\<lambda>r. access_token r = token) (token_table s)) of
        None \<Rightarrow> (Inl ErrNoToken, s)
      | Some r \<Rightarrow>
          if Before (expiration_time r) now2 then (Inl ErrTokenExpired, s)
          else
            (let cid = client_id r; scope = access_scope r;
                 s1 = s\<lparr>tokens_cache := (tokens_cache s)(token \<mapsto>
                         \<lparr>ClientID = cid, AccessScope = scope,
                          ExpirationTime = expiration_time r\<rparr>)\<rparr>
             in case users s1 cid of
                  None \<Rightarrow> (Inr (cid, scope), s1)
                | Some user \<Rightarrow>
                    (case CheckToken_loop (Scopes user) (Tokens user) scope token of
                       Inl e \<Rightarrow> (Inl e, s1)
                     | Inr ts \<Rightarrow>
                         (Inr (cid, scope),
                          s1\<lparr>users := (users s1)(cid \<mapsto> user\<lparr>Tokens := ts\<rparr>)\<rparr>))))"

definition CheckToken ::
  "time \<Rightarrow> time \<Rightarrow> string \<Rightarrow> query_answer \<Rightarrow> store \<Rightarrow>
     (error + string \<times> string) \<times> store" where
  "CheckToken now1 now2 token q s =
     (case tokens_cache s token of
        Some token_info \<Rightarrow>
          if After (ExpirationTime token_info) now1
          then (Inr (ClientID token_info, AccessScope token_info), s)
          else CheckToken_store now2 token q
                 (s\<lparr>tokens_cache := (tokens_cache s)(token := None)\<rparr>)
      | None \<Rightarrow> CheckToken_store now2 token q s)"

subsection \<open>The handler of \<^verbatim>\<open>POST token/\<close>\<close>

record Form =
  ClientId :: string
  Scope :: string
  ClientSecret_f :: string
  GrantType :: string

text \<open>
  What the handler answers: a status with the error text, the token and scope of a
  success, or nothing at all when the handler panics (the router is built with
  \<^verbatim>\<open>gin.New()\<close>, without a recovery middleware).
\<close>

datatype response =
    StatusOK string string
  | StatusBadRequest string
  | StatusInternalServerError string
  | Panicked error

definition token_handler ::
  "time \<Rightarrow> time \<Rightarrow> Form \<Rightarrow> insert_result \<Rightarrow> store \<Rightarrow> response \<times> store" where
  "token_handler now1 now2 f ins s =
     (if ClientId f = '''' \<or> Scope f = '''' \<or> ClientSecret_f f = '''' \<or> GrantType f = ''''
      then (StatusBadRequest
        ''Missing some of following form fields: client_id, scope, client_secret, grant_type'', s)
      else if GrantType f \<noteq> ''client_credentials''
      then (StatusBadRequest ''Incorrect grant type'', s)
      else (case users s (ClientId f) of
              None \<Rightarrow> (Panicked PanicNilInterface, s)
            | Some user \<Rightarrow>
                if ClientSecret_f f \<noteq> ClientSecret user
                then (StatusBadRequest ''Incorrect client credentials'', s)
                else if Scope f \<notin> set (Scopes user)
                then (StatusBadRequest ''Wrong scope'', s)
                else (case AddToken now1 now2 (ClientId f) (Scope f) ins s of
                        (Inl e, s1) \<Rightarrow> (Panicked e, s1)
                      | (Inr token, s1) \<Rightarrow>
                          if token = ''''
                          then (StatusInternalServerError ''Internal server error'', s1)
                          else (StatusOK token (Scope f), s1))))"

section \<open>Loading the client registry at startup\<close>

text \<open>
  \<^verbatim>\<open>GetAllUsers\<close> loops until it returns or the process exits. What the database answers
  to its successive queries is the argument \<open>qs\<close>: when the answers run out before the
  loop has ended, the result is \<open>None\<close>. A query fails, or gives rows, each of which
  scans or does not.
\<close>

datatype scan_result = Scanned string string "string list" | ScanError

datatype query_result = QueryErrNoRows | QueryError | QueryRows "scan_result list"

text \<open>
  The end of the loop: the registry after the load with the number of one-second sleeps
  before it, or the exit of the process through \<^verbatim>\<open>log.Fatal\<close>.
\<close>

datatype startup = Loaded "string \<rightharpoonup> User" nat | Fatal

fun scan_rows :: "scan_result list \<Rightarrow> (string \<times> User) list option" where
  "scan_rows [] = Some []"
| "scan_rows (ScanError # rs) = None"
| "scan_rows (Scanned uid secret scopes # rs) =
     (case scan_rows rs of
        None \<Rightarrow> None
      | Some usrs \<Rightarrow>
          Some ((uid, \<lparr>ClientSecret = secret, Scopes = scopes,
                      Tokens = replicate (length scopes) ''''\<rparr>) # usrs))"

fun store_users :: "(string \<rightharpoonup> User) \<Rightarrow> (string \<times> User) list \<Rightarrow> (string \<rightharpoonup> User)" where
  "store_users us [] = us"
| "store_users us ((uid, user) # usrs) = store_users (us(uid \<mapsto> user)) usrs"

fun GetAllUsers :: "(string \<rightharpoonup> User) \<Rightarrow> nat \<Rightarrow> query_result list \<Rightarrow> startup option" where
  "GetAllUsers us n [] = None"
| "GetAllUsers us n (QueryErrNoRows # qs) = GetAllUsers us n qs"
| "GetAllUsers us n (QueryError # qs) = Some Fatal"
| "GetAllUsers us n (QueryRows rs # qs) =
     (case scan_rows rs of
        None \<Rightarrow> Some Fatal
      | Some usrs \<Rightarrow>
          if length usrs = 1000 then Some (Loaded (store_users us usrs) n)
          else GetAllUsers us (Suc n) qs)"

section \<open>Invariants\<close>

definition limiter_bound :: "RateLimiter \<Rightarrow> bool" where
  "limiter_bound rl =
     (0 \<le> rl_capacity rl \<and>
      (\<forall>k tb. limiters rl k = Some tb \<longrightarrow>
         bucket_bound tb \<and> capacity tb = rl_capacity rl \<and> fillRate tb = rl_fillRate rl))"

text \<open>
  The registry keeps, for every client, one token slot per scope, as \<^verbatim>\<open>GetAllUsers\<close>
  builds it.
\<close>

definition registry_wf :: "(string \<rightharpoonup> User) \<Rightarrow> bool" where
  "registry_wf us = (\<forall>cid u. us cid = Some u \<longrightarrow> length (Tokens u) = length (Scopes u))"

text \<open>
  The caches agree with the table: token values are unique in the table, an entry of the
  token cache carries the columns of the row with its token (when that row is still
  there), and a token held in a client's slot is the token of a row of that client and
  of the slot's scope.
\<close>

definition store_inv :: "store \<Rightarrow> bool" where
  "store_inv s =
     (distinct (map access_token (token_table s)) \<and>
      registry_wf (users s) \<and>
      (\<forall>tok info r. tokens_cache s tok = Some info \<and> r \<in> set (token_table s) \<and>
           access_token r = tok \<longrightarrow>
         ClientID info = client_id r \<and> AccessScope info = access_scope r \<and>
         ExpirationTime info = expiration_time r) \<and>
      (\<forall>cid u i. users s cid = Some u \<and> i < length (Tokens u) \<and> Tokens u ! i \<noteq> '''' \<longrightarrow>
         (\<exists>r \<in> set (token_table s). access_token r = Tokens u ! i \<and> client_id r = cid \<and>
            access_scope r = Scopes u ! i)))"


definition expires_at :: "store \<Rightarrow> string \<Rightarrow> time option" where
  "expires_at s token =
     map_option expiration_time (find (\<lambda>r. access_token r = token) (token_table s))"


text \<open>The rows of a page of the user table that all scan.\<close>

definition page :: "(string \<times> string \<times> string list) list \<Rightarrow> query_result" where
  "page rows = QueryRows (map (\<lambda>(uid, secret, scopes). Scanned uid secret scopes) rows)"

definition page_users :: "(string \<times> string \<times> string list) list \<Rightarrow> (string \<times> User) list" where
  "page_users rows =
     map (\<lambda>(uid, secret, scopes).
            (uid, \<lparr>ClientSecret = secret, Scopes = scopes,
                   Tokens = replicate (length scopes) ''''\<rparr>)) rows"

section \<open>Example states\<close>

text \<open>
  A registry with one client, and stores over it: with an empty table, and with an expired
  and a valid row.
\<close>

definition client1 :: User where
  "client1 = \<lparr>ClientSecret = ''s3cret'', Scopes = [''read'', ''write''], Tokens = ['''', '''']\<rparr>"

definition store0 :: store where
  "store0 = \<lparr>users = [''c1'' \<mapsto> client1], tokens_cache = Map.empty, token_table = []\<rparr>"

definition rowA :: token_row where
  "rowA = \<lparr>access_token = ''tokA'', client_id = ''c1'', access_scope = ''read'',
           expiration_time = 100\<rparr>"

definition rowB :: token_row where
  "rowB = \<lparr>access_token = ''tokB'', client_id = ''c1'', access_scope = ''write'',
           expiration_time = 9000\<rparr>"

definition store1 :: store where
  "store1 = store0\<lparr>token_table := [rowA, rowB]\<rparr>"

definition form1 :: Form where
  "form1 = \<lparr>ClientId = ''c1'', Scope = ''read'', ClientSecret_f = ''s3cret'',
            GrantType = ''client_credentials''\<rparr>"

text \<open>
  The store after the client has been issued a token at time 0 (the insert gives
  \<open>''tok1''\<close>, expiring at 7200), and after that token has been validated at time 10.
\<close>

definition store_issued :: store where
  "store_issued = snd (token_handler 0 0 form1 (Inserted ''tok1'' 7200) store0)"

definition store_validated :: store where
  "store_validated = snd (CheckToken 10 11 ''tok1'' Answered store_issued)"

section \<open>Properties of the rate limiter\<close>

lemma refill_frame: "capacity (refill now tb) = capacity tb \<and> fillRate (refill now tb) = fillRate tb"
  by (simp add: refill_def Let_def)

lemma refill_bound: "bucket_bound tb \<Longrightarrow> bucket_bound (refill now tb)"
  by (auto simp: refill_def Let_def bucket_bound_def)

lemma Allow_bound: "bucket_bound tb \<Longrightarrow> bucket_bound (fst (Allow now tb))"
  using refill_bound [of tb now]
  by (auto simp: Allow_def Let_def bucket_bound_def)

lemma Allow_frame:
  "capacity (fst (Allow now tb)) = capacity tb \<and> fillRate (fst (Allow now tb)) = fillRate tb"
  by (simp add: Allow_def Let_def refill_frame)

lemma evals:
  "NewRateLimiter c r = \<lparr>limiters = Map.empty, rl_capacity = c, rl_fillRate = r\<rparr>"
  "Seconds d = real_of_int d / 1000000000"
  "maxDuration = 9223372036854775807"
  "minDuration = - 9223372036854775808"
  by (simp_all add: NewRateLimiter_def Seconds_def maxDuration_def minDuration_def)

lemma getLimiter_bound:
  assumes "limiter_bound rl"
  shows "bucket_bound (fst (getLimiter rl k t)) \<and>
         capacity (fst (getLimiter rl k t)) = rl_capacity rl \<and>
         fillRate (fst (getLimiter rl k t)) = rl_fillRate rl \<and>
         rl_capacity (snd (getLimiter rl k t)) = rl_capacity rl \<and>
         rl_fillRate (snd (getLimiter rl k t)) = rl_fillRate rl \<and>
         limiter_bound (snd (getLimiter rl k t))"
proof (cases "limiters rl k")
  case None
  let ?b = "\<lparr>tokens = rl_capacity rl, capacity = rl_capacity rl, fillRate = rl_fillRate rl,
             lastRefillTime = t\<rparr>"
  from None have g: "getLimiter rl k t = (?b, rl\<lparr>limiters := (limiters rl)(k \<mapsto> ?b)\<rparr>)"
    by (simp add: getLimiter_def Let_def)
  from assms have b: "bucket_bound ?b" by (simp add: limiter_bound_def bucket_bound_def)
  with assms have "limiter_bound (rl\<lparr>limiters := (limiters rl)(k \<mapsto> ?b)\<rparr>)"
    unfolding limiter_bound_def by simp
  with b show ?thesis by (simp add: g)
next
  case (Some b)
  then have g: "getLimiter rl k t = (b, rl)" by (simp add: getLimiter_def)
  from assms Some have "bucket_bound b \<and> capacity b = rl_capacity rl \<and> fillRate b = rl_fillRate rl"
    unfolding limiter_bound_def by blast
  with assms show ?thesis by (simp add: g)
qed

lemma IsAllowed_bound:
  assumes "limiter_bound rl"
  shows "limiter_bound (fst (IsAllowed rl k t_get t_allow))"
proof -
  obtain b rl1 where g: "getLimiter rl k t_get = (b, rl1)"
    by (cases "getLimiter rl k t_get")
  from getLimiter_bound [OF assms, of k t_get] g
  have b: "bucket_bound b" "capacity b = rl_capacity rl1" "fillRate b = rl_fillRate rl1"
    and rl1: "limiter_bound rl1" by simp_all
  have "bucket_bound (fst (Allow t_allow b))" using b(1) by (rule Allow_bound)
  with rl1 b(2,3) Allow_frame [of t_allow b] show ?thesis
    by (simp add: IsAllowed_def g split_beta limiter_bound_def)
qed

lemma run_calls_bound: "limiter_bound rl \<Longrightarrow> limiter_bound (run_calls rl cs)"
  by (induction rl cs rule: run_calls.induct) (simp_all add: IsAllowed_bound)

lemma NewRateLimiter_bound: "0 \<le> cap \<Longrightarrow> limiter_bound (NewRateLimiter cap rate)"
  by (simp add: limiter_bound_def NewRateLimiter_def)

lemma getLimiter_other: "k2 \<noteq> k1 \<Longrightarrow> limiters (snd (getLimiter rl k1 t)) k2 = limiters rl k2"
  by (simp add: getLimiter_def Let_def split: option.splits)

lemma getLimiter_defaults:
  "rl_capacity (snd (getLimiter rl k t)) = rl_capacity rl \<and>
   rl_fillRate (snd (getLimiter rl k t)) = rl_fillRate rl"
  by (simp add: getLimiter_def Let_def split: option.splits)

lemma IsAllowed_defaults:
  "rl_capacity (fst (IsAllowed rl k t_get t_allow)) = rl_capacity rl \<and>
   rl_fillRate (fst (IsAllowed rl k t_get t_allow)) = rl_fillRate rl"
  using getLimiter_defaults [of rl k t_get] by (simp add: IsAllowed_def split_beta)

lemma getLimiter_new:
  "limiters rl k = None \<Longrightarrow>
     getLimiter rl k t =
       (\<lparr>tokens = rl_capacity rl, capacity = rl_capacity rl, fillRate = rl_fillRate rl,
         lastRefillTime = t\<rparr>,
        rl\<lparr>limiters := (limiters rl)(k \<mapsto>
          \<lparr>tokens = rl_capacity rl, capacity = rl_capacity rl, fillRate = rl_fillRate rl,
           lastRefillTime = t\<rparr>)\<rparr>)"
  by (simp add: getLimiter_def Let_def)

lemma refill_full: "tokens tb = capacity tb \<Longrightarrow> tokens (refill now tb) = capacity tb"
  by (simp add: refill_def Let_def)

text \<open>
  The scenario of the specification: capacity 2, one token per second; two requests at
  once are allowed, the third is denied, and one second later exactly one more is allowed.
\<close>

lemma scenario_capacity_2:
  "map snd
     [IsAllowed (NewRateLimiter 2 1) ''A'' 0 0,
      IsAllowed (run_calls (NewRateLimiter 2 1) [(''A'', 0, 0)]) ''A'' 0 0,
      IsAllowed (run_calls (NewRateLimiter 2 1) [(''A'', 0, 0), (''A'', 0, 0)]) ''A'' 0 0,
      IsAllowed (run_calls (NewRateLimiter 2 1) [(''A'', 0, 0), (''A'', 0, 0), (''A'', 0, 0)])
        ''A'' 1000000000 1000000000,
      IsAllowed (run_calls (NewRateLimiter 2 1) [(''A'', 0, 0), (''A'', 0, 0), (''A'', 0, 0),
        (''A'', 1000000000, 1000000000)]) ''A'' 1000000000 1000000000]
   = [True, True, False, True, False]"
  by (simp add: IsAllowed_def getLimiter_def Allow_def refill_def Sub_def Let_def evals)

text \<open>
  C1 (as amended). When the configured capacity is not negative, then after every call
  of any sequence of \<^verbatim>\<open>IsAllowed\<close> calls on a new limiter, whatever the keys and the clock
  readings, every bucket has \<open>0 \<le> tokens \<le> capacity\<close>, and its capacity is the
  configured one.
\<close>

theorem bucket_bound_after_calls:
  assumes "0 \<le> cap"
    and "limiters (run_calls (NewRateLimiter cap rate) cs) k = Some tb"
  shows "0 \<le> tokens tb \<and> tokens tb \<le> capacity tb \<and> capacity tb = cap"
proof -
  have "limiter_bound (run_calls (NewRateLimiter cap rate) cs)"
    using assms(1) by (simp add: NewRateLimiter_bound run_calls_bound)
  moreover have "rl_capacity (run_calls rl cs) = rl_capacity rl" for rl
    by (induction rl cs rule: run_calls.induct) (simp_all add: IsAllowed_defaults)
  ultimately have "bucket_bound tb \<and> capacity tb = cap"
    using assms(2) by (simp add: limiter_bound_def NewRateLimiter_def)
  then show ?thesis by (simp add: bucket_bound_def)
qed

theorem bucket_bound_after_calls_witness:
  "(0::real) \<le> 2 \<and>
   limiters (run_calls (NewRateLimiter 2 1) [(''A'', 0, 0), (''A'', 0, 500000000)]) ''A''
     = Some \<lparr>tokens = 1 / 2, capacity = 2, fillRate = 1, lastRefillTime = 500000000\<rparr> \<and>
   0 \<le> tokens \<lparr>tokens = 1 / 2, capacity = 2, fillRate = 1, lastRefillTime = 500000000\<rparr> \<and>
   tokens \<lparr>tokens = 1 / 2, capacity = 2, fillRate = 1, lastRefillTime = 500000000\<rparr>
     \<le> capacity \<lparr>tokens = 1 / 2, capacity = 2, fillRate = 1, lastRefillTime = 500000000\<rparr>"
proof -
  have h: "limiters (run_calls (NewRateLimiter 2 1) [(''A'', 0, 0), (''A'', 0, 500000000)]) ''A''
     = Some \<lparr>tokens = 1 / 2, capacity = 2, fillRate = 1, lastRefillTime = 500000000\<rparr>"
    by (simp add: IsAllowed_def getLimiter_def Allow_def refill_def Sub_def Let_def evals)
  from bucket_bound_after_calls [OF _ h] h show ?thesis by simp
qed

text \<open>
  C1 as stated fails for a negative capacity (\<^verbatim>\<open>RATE_LIMIT_CAPACITY=-1\<close>): the bucket is
  seeded with \<open>tokens = capacity = -1\<close>.
\<close>

theorem bucket_bound_counterexample:
  "map_option tokens (limiters (run_calls (NewRateLimiter (- 1) 2) [(''A'', 0, 0)]) ''A'')
     = Some (- 1)"
  by (simp add: IsAllowed_def getLimiter_def Allow_def refill_def Sub_def Let_def evals)

text \<open>
  C2 (as amended). For a bucket with \<open>tokens = 0\<close>, a capacity and a fill rate that are
  not negative, and \<open>t\<close> the seconds from \<open>lastRefillTime\<close> to the clock reading of the next
  \<^verbatim>\<open>Allow\<close>, with \<open>t \<ge> 0\<close>: the refill of that call leaves \<open>tokens = min capacity (t * fillRate)\<close>,
  and the call allows and decrements exactly when that value is at least 1.
\<close>

theorem refill_from_empty:
  assumes "tokens tb = 0" and "0 \<le> capacity tb" and "0 \<le> fillRate tb"
    and "lastRefillTime tb \<le> now"
    and "t = Seconds (Sub now (lastRefillTime tb))"
  shows "tokens (refill now tb) = min (capacity tb) (t * fillRate tb) \<and>
         snd (Allow now tb) = (1 \<le> min (capacity tb) (t * fillRate tb)) \<and>
         tokens (fst (Allow now tb)) =
           (if 1 \<le> min (capacity tb) (t * fillRate tb)
            then min (capacity tb) (t * fillRate tb) - 1
            else min (capacity tb) (t * fillRate tb))"
proof -
  have "0 \<le> Sub now (lastRefillTime tb)"
    using assms(4) by (simp add: Sub_def Let_def evals)
  then have t0: "0 \<le> t"
    by (simp add: assms(5) Seconds_def)
  then have nn: "0 \<le> t * fillRate tb" using assms(3) by simp
  have r: "tokens (refill now tb) = min (capacity tb) (t * fillRate tb)"
    using assms(1,2,5) nn by (auto simp: refill_def Let_def min_def)
  then show ?thesis by (simp add: Allow_def Let_def)
qed

theorem refill_from_empty_witness:
  "tokens (refill 3000000000 \<lparr>tokens = 0, capacity = 10, fillRate = 2, lastRefillTime = 0\<rparr>)
     = min 10 (3 * 2) \<and>
   snd (Allow 3000000000 \<lparr>tokens = 0, capacity = 10, fillRate = 2, lastRefillTime = 0\<rparr>) \<and>
   tokens (fst (Allow 3000000000
     \<lparr>tokens = 0, capacity = 10, fillRate = 2, lastRefillTime = 0\<rparr>)) = 5"
  using refill_from_empty [of "\<lparr>tokens = 0, capacity = 10, fillRate = 2, lastRefillTime = 0\<rparr>"
      3000000000 3]
  by (simp add: Sub_def Let_def evals)

text \<open>
  C2 as stated fails for a negative fill rate (\<^verbatim>\<open>RATE_LIMIT_REFILL_RATE=-1\<close>): after one
  second the guard \<^verbatim>\<open>tokensToAdd > 0\<close> of \<^verbatim>\<open>refill\<close> leaves \<open>tokens = 0\<close>, and
  \<open>min capacity (t * fillRate) = -1\<close>.
\<close>

theorem refill_from_empty_counterexample:
  "tokens (refill 1000000000 \<lparr>tokens = 0, capacity = 10, fillRate = - 1, lastRefillTime = 0\<rparr>)
     = 0 \<and>
   min (10::real) (Seconds (Sub 1000000000 0) * (- 1)) = - 1"
  by (simp add: refill_def Sub_def Let_def evals)

text \<open>
  C7 (as amended). For a key with no bucket and a configured capacity of at least 1, the
  first \<^verbatim>\<open>IsAllowed\<close> for the key creates the bucket with \<open>tokens = capacity\<close> and returns
  allowed, leaving \<open>capacity - 1\<close> tokens; the call has no failing branch.
\<close>

theorem first_request_allowed:
  assumes "limiters rl k = None" and "1 \<le> rl_capacity rl"
  shows "tokens (fst (getLimiter rl k t_get)) = rl_capacity rl \<and>
         capacity (fst (getLimiter rl k t_get)) = rl_capacity rl \<and>
         snd (IsAllowed rl k t_get t_allow) \<and>
         map_option tokens (limiters (fst (IsAllowed rl k t_get t_allow)) k)
           = Some (rl_capacity rl - 1)"
proof -
  let ?b = "\<lparr>tokens = rl_capacity rl, capacity = rl_capacity rl, fillRate = rl_fillRate rl,
             lastRefillTime = t_get\<rparr>"
  have "tokens (refill t_allow ?b) = rl_capacity rl"
    using refill_full [of ?b t_allow] by simp
  then show ?thesis
    using assms by (simp add: IsAllowed_def getLimiter_new [OF assms(1)] Allow_def Let_def)
qed

theorem first_request_allowed_witness:
  "limiters (NewRateLimiter 10 2) ''A'' = None \<and> 1 \<le> rl_capacity (NewRateLimiter 10 2) \<and>
   snd (IsAllowed (NewRateLimiter 10 2) ''A'' 0 7) \<and>
   map_option tokens (limiters (fst (IsAllowed (NewRateLimiter 10 2) ''A'' 0 7)) ''A'') = Some 9"
  using first_request_allowed [of "NewRateLimiter 10 2" "''A''" 0 7]
  by (simp add: evals)

text \<open>
  C7 as stated fails for a capacity below 1 (\<^verbatim>\<open>RATE_LIMIT_CAPACITY=0.5\<close>): the full bucket
  holds less than one token and the first request is denied.
\<close>

theorem first_request_counterexample:
  "limiters (NewRateLimiter (1 / 2) 2) ''A'' = None \<and>
   snd (IsAllowed (NewRateLimiter (1 / 2) 2) ''A'' 0 1000000000) = False"
  by (simp add: IsAllowed_def getLimiter_def Allow_def refill_def Sub_def Let_def evals)

text \<open>
  C10. For two different keys, \<^verbatim>\<open>IsAllowed\<close> on the first leaves the bucket of the second
  (present or absent) as it was, and leaves the limiter's capacity and fill rate as they
  were.
\<close>

theorem IsAllowed_frame:
  assumes "k1 \<noteq> k2"
  shows "limiters (fst (IsAllowed rl k1 t_get t_allow)) k2 = limiters rl k2 \<and>
         rl_capacity (fst (IsAllowed rl k1 t_get t_allow)) = rl_capacity rl \<and>
         rl_fillRate (fst (IsAllowed rl k1 t_get t_allow)) = rl_fillRate rl"
  using assms getLimiter_other [of k2 k1 rl t_get] getLimiter_defaults [of rl k1 t_get]
  by (simp add: IsAllowed_def split_beta Let_def)

theorem IsAllowed_frame_witness:
  "''A'' \<noteq> ''B'' \<and>
   limiters (fst (IsAllowed (run_calls (NewRateLimiter 10 2) [(''B'', 0, 0)]) ''A'' 5 5)) ''B''
     = Some \<lparr>tokens = 9, capacity = 10, fillRate = 2, lastRefillTime = 0\<rparr> \<and>
   rl_capacity (fst (IsAllowed (run_calls (NewRateLimiter 10 2) [(''B'', 0, 0)]) ''A'' 5 5)) = 10 \<and>
   rl_fillRate (fst (IsAllowed (run_calls (NewRateLimiter 10 2) [(''B'', 0, 0)]) ''A'' 5 5)) = 2"
proof -
  have b: "run_calls (NewRateLimiter 10 2) [(''B'', 0, 0)] =
      \<lparr>limiters = [''B'' \<mapsto> \<lparr>tokens = 9, capacity = 10, fillRate = 2, lastRefillTime = 0\<rparr>],
       rl_capacity = 10, rl_fillRate = 2\<rparr>"
    by (simp add: IsAllowed_def getLimiter_def Allow_def refill_def Sub_def Let_def evals)
  from IsAllowed_frame [of "''A''" "''B''" "run_calls (NewRateLimiter 10 2) [(''B'', 0, 0)]" 5 5]
  show ?thesis unfolding b by simp
qed

section \<open>Properties of the token service\<close>





lemma find_token_None:
  "find (\<lambda>r. access_token r = tok) rows = None \<longleftrightarrow> tok \<notin> access_token ` set rows"
  by (auto simp: find_None_iff)







lemma store_invI:
  assumes "distinct (map access_token (token_table s))"
    and "registry_wf (users s)"
    and "\<And>tok info r. tokens_cache s tok = Some info \<Longrightarrow> r \<in> set (token_table s) \<Longrightarrow>
           access_token r = tok \<Longrightarrow>
           ClientID info = client_id r \<and> AccessScope info = access_scope r \<and>
           ExpirationTime info = expiration_time r"
    and "\<And>cid u i. users s cid = Some u \<Longrightarrow> i < length (Tokens u) \<Longrightarrow> Tokens u ! i \<noteq> '''' \<Longrightarrow>
           \<exists>r\<in>set (token_table s). access_token r = Tokens u ! i \<and> client_id r = cid \<and>
             access_scope r = Scopes u ! i"
  shows "store_inv s"
  unfolding store_inv_def using assms by blast












lemma examples:
  "client1 = \<lparr>ClientSecret = ''s3cret'', Scopes = [''read'', ''write''], Tokens = ['''', '''']\<rparr>"
  "store0 = \<lparr>users = [''c1'' \<mapsto> client1], tokens_cache = Map.empty, token_table = []\<rparr>"
  "rowA = \<lparr>access_token = ''tokA'', client_id = ''c1'', access_scope = ''read'',
           expiration_time = 100\<rparr>"
  "rowB = \<lparr>access_token = ''tokB'', client_id = ''c1'', access_scope = ''write'',
           expiration_time = 9000\<rparr>"
  "store1 = store0\<lparr>token_table := [rowA, rowB]\<rparr>"
  "form1 = \<lparr>ClientId = ''c1'', Scope = ''read'', ClientSecret_f = ''s3cret'',
            GrantType = ''client_credentials''\<rparr>"
  by (simp_all add: client1_def store0_def rowA_def rowB_def store1_def form1_def)








lemma issue0:
  "token_handler 0 0 form1 (Inserted ''tok1'' 7200) store0 =
     (StatusOK ''tok1'' ''read'',
      store0\<lparr>token_table := [\<lparr>access_token = ''tok1'', client_id = ''c1'',
                               access_scope = ''read'', expiration_time = 7200\<rparr>]\<rparr>)"
  by (simp add: token_handler_def AddToken_def get_token_def examples)


lemma CheckToken_store_failed:
  "zeroTime < now2 \<Longrightarrow> CheckToken_store now2 token Failed s = (Inl ErrTokenExpired, s)"
  by (simp add: CheckToken_store_def Before_def zero_row_def)




text \<open>
  The state at the end of startup satisfies the invariant: the token cache is empty, the
  slots of every client are empty, and the table has one row per token value.
\<close>

lemma startup_inv:
  assumes "distinct (map access_token rows)"
    and "registry_wf us"
    and "\<forall>cid u. us cid = Some u \<longrightarrow> (\<forall>t\<in>set (Tokens u). t = '''')"
  shows "store_inv \<lparr>users = us, tokens_cache = Map.empty, token_table = rows\<rparr>"
  using assms by (intro store_invI) (auto simp: registry_wf_def)

lemma store_issued_eq:
  "store_issued = store0\<lparr>token_table := [\<lparr>access_token = ''tok1'', client_id = ''c1'',
     access_scope = ''read'', expiration_time = 7200\<rparr>]\<rparr>"
  by (simp add: store_issued_def issue0)

lemma store_validated_eq:
  "store_validated =
     \<lparr>users = [''c1'' \<mapsto> client1\<lparr>Tokens := [''tok1'', '''']\<rparr>],
      tokens_cache = [''tok1'' \<mapsto> \<lparr>ClientID = ''c1'', AccessScope = ''read'',
                                    ExpirationTime = 7200\<rparr>],
      token_table = [\<lparr>access_token = ''tok1'', client_id = ''c1'',
                      access_scope = ''read'', expiration_time = 7200\<rparr>]\<rparr>"
  by (simp add: store_validated_def store_issued_eq CheckToken_def CheckToken_store_def
      Before_def Let_def examples)





text \<open>
  \<^verbatim>\<open>AddToken\<close> returns the token of a client's slot whatever the clock says: the look-up
  in \<^verbatim>\<open>user.Tokens\<close> has no expiration check.
\<close>

lemma AddToken_cached:
  "users s cid = Some u \<Longrightarrow> AddToken_loop (Scopes u) (Tokens u) scope = Inr (Some t) \<Longrightarrow>
     AddToken now1 now2 cid scope ins s = (Inr t, s)"
  by (simp add: AddToken_def)

text \<open>
  \<^verbatim>\<open>CheckToken\<close> checks the expiration time on both of its paths: it succeeds only on a
  cache entry that expires after the first clock reading, or on a row that does not
  expire before the second (after a failed query, on a clock that is not past the zero
  time).
\<close>

lemma CheckToken_checks_expiration:
  assumes "fst (CheckToken now1 now2 token q s) = Inr x"
  shows "(\<exists>info. tokens_cache s token = Some info \<and> now1 < ExpirationTime info) \<or>
         (q = Answered \<and>
          (\<exists>r. find (\<lambda>r. access_token r = token) (token_table s) = Some r \<and>
               now2 \<le> expiration_time r)) \<or>
         (q = Failed \<and> now2 \<le> zeroTime)"
proof (cases "\<exists>info. tokens_cache s token = Some info \<and> now1 < ExpirationTime info")
  case True
  then show ?thesis by blast
next
  case False
  then obtain s1 where s1: "CheckToken now1 now2 token q s = CheckToken_store now2 token q s1"
    "token_table s1 = token_table s"
    by (cases "tokens_cache s token") (auto simp: CheckToken_def After_def)
  with assms have ok: "fst (CheckToken_store now2 token q s1) = Inr x" by simp
  show ?thesis
  proof (cases q)
    case Answered
    with ok have "\<exists>r. find (\<lambda>r. access_token r = token) (token_table s1) = Some r \<and>
        now2 \<le> expiration_time r"
      by (auto simp: CheckToken_store_def Before_def Let_def split: option.splits if_splits)
    with s1 Answered show ?thesis by simp
  next
    case Failed
    with ok CheckToken_store_failed [of now2 token s1] have "now2 \<le> zeroTime"
      by (cases "zeroTime < now2") simp_all
    with Failed show ?thesis by simp
  qed
qed

text \<open>
  C4 (the code departs from the claim). The client is issued \<open>''tok1''\<close>, which expires at
  7200, and validates it at time 10, which puts the token in the client's slot for the
  scope. A request for a token at time 9000 is answered with \<open>''tok1''\<close> from that slot,
  after its expiration time, and with no query of the store.
\<close>

theorem issue_returns_expired_token:
  "token_handler 9000 9001 form1 (Inserted ''tok2'' 16200) store_validated =
     (StatusOK ''tok1'' ''read'', store_validated) \<and>
   expires_at store_validated ''tok1'' = Some 7200"
  by (simp add: store_validated_eq token_handler_def AddToken_def expires_at_def examples)

text \<open>
  C5 (the code departs from the claim). For a client that is not in the registry the
  handler panics at the type assertion \<^verbatim>\<open>item.(User)\<close>, before the test of \<^verbatim>\<open>user_ok\<close>
  that was to answer \<open>Incorrect client credentials\<close>: there is no answer at all. The
  state is unchanged.
\<close>

theorem unknown_client_panics:
  "token_handler 0 0 (form1\<lparr>ClientId := ''nobody''\<rparr>) (Inserted ''tok1'' 7200) store0 =
     (Panicked PanicNilInterface, store0)"
  by (simp add: token_handler_def examples)

text \<open>
  The rest of C5 holds: a form that binds, with the right grant type, for an unknown
  client always panics, and for a known client with another secret is answered with
  \<open>Incorrect client credentials\<close>; in both the state, and so the table, is unchanged.
\<close>

lemma token_handler_unknown_client:
  assumes "ClientId f \<noteq> ''''" "Scope f \<noteq> ''''" "ClientSecret_f f \<noteq> ''''"
    and "GrantType f = ''client_credentials''"
    and "users s (ClientId f) = None"
  shows "token_handler now1 now2 f ins s = (Panicked PanicNilInterface, s)"
  using assms by (simp add: token_handler_def)

lemma token_handler_bad_secret:
  assumes "ClientId f \<noteq> ''''" "Scope f \<noteq> ''''" "ClientSecret_f f \<noteq> ''''"
    and "GrantType f = ''client_credentials''"
    and "users s (ClientId f) = Some u" and "ClientSecret_f f \<noteq> ClientSecret u"
  shows "token_handler now1 now2 f ins s = (StatusBadRequest ''Incorrect client credentials'', s)"
  using assms by (simp add: token_handler_def)

lemma bad_secret_scenario:
  "token_handler 0 0 (form1\<lparr>ClientSecret_f := ''wrong''\<rparr>) (Inserted ''tok1'' 7200) store0 =
     (StatusBadRequest ''Incorrect client credentials'', store0)"
  by (simp add: token_handler_def examples)

section \<open>Properties of the startup load\<close>

lemma scan_rows_page:
  "scan_rows (map (\<lambda>(uid, secret, scopes). Scanned uid secret scopes) rows) =
     Some (page_users rows)"
  by (induction rows) (auto simp: page_users_def)

lemma length_page_users: "length (page_users rows) = length rows"
  by (simp add: page_users_def)

text \<open>
  What the loop over \<^verbatim>\<open>usrs\<close> with \<^verbatim>\<open>users.Store\<close> leaves in the registry: every id of
  \<open>usrs\<close> is bound to the user of its last entry in \<open>usrs\<close>, every other id keeps what
  it had.
\<close>

lemma store_users_map_of: "store_users us usrs = us ++ map_of (rev usrs)"
proof (induction us usrs rule: store_users.induct)
  case (1 us)
  show ?case by simp
next
  case (2 us uid user usrs)
  have "us(uid \<mapsto> user) ++ map_of (rev usrs) = us ++ map_of (rev ((uid, user) # usrs))"
    by (simp add: map_add_upd_left fun_eq_iff map_add_def split: option.splits)
  with "2.IH" show ?case by (simp only: store_users.simps)
qed

lemma map_of_replicate:
  "map_of (replicate n (k, v)) k' = (if k' = k \<and> 0 < n then Some v else None)"
  by (induction n) auto

text \<open>
  C8. When every query succeeds and every row scans, \<^verbatim>\<open>GetAllUsers\<close> ends at the first
  query that returns exactly 1000 rows. The registry it leaves is the one before the call
  with every client id of that query bound to the user of the last row with that id
  (secret and scopes of the row, one empty token slot per scope); the rows of the other
  queries leave nothing in it. Before that query it has slept once for each query that
  returned another number of rows. When no query returns 1000 rows the loop does not end.
\<close>

theorem GetAllUsers_pages:
  "GetAllUsers us n (map page pages) =
     (case dropWhile (\<lambda>p. length p \<noteq> 1000) pages of
        [] \<Rightarrow> None
      | p # rest \<Rightarrow>
          Some (Loaded (us ++ map_of (rev (page_users p)))
                  (n + length (takeWhile (\<lambda>p. length p \<noteq> 1000) pages))))"
proof (induction pages arbitrary: n)
  case Nil
  show ?case by simp
next
  case (Cons p pages)
  show ?case
  proof (cases "length p = 1000")
    case True
    then show ?thesis
      by (simp add: page_def scan_rows_page length_page_users store_users_map_of)
  next
    case False
    then have step:
      "GetAllUsers us n (map page (p # pages)) = GetAllUsers us (Suc n) (map page pages)"
      by (simp add: page_def scan_rows_page length_page_users)
    from False have tw: "length (takeWhile (\<lambda>p. length p \<noteq> 1000) (p # pages)) =
        Suc (length (takeWhile (\<lambda>p. length p \<noteq> 1000) pages))"
      and dw: "dropWhile (\<lambda>p. length p \<noteq> 1000) (p # pages) =
        dropWhile (\<lambda>p. length p \<noteq> 1000) pages"
      by simp_all
    show ?thesis
      unfolding step Cons.IH [of "Suc n"] tw dw add_Suc_shift ..
  qed
qed

text \<open>
  A registry that has a client \<open>''c0''\<close>; a first query of one row, a second of 1000 rows
  (998 for \<open>''c1''\<close> with an old secret, one for \<open>''c2''\<close>, a last one for \<open>''c1''\<close>), a
  third of 1000 rows that is never made. The load sleeps once and leaves \<open>''c0''\<close>, the
  last row of \<open>''c1''\<close> and \<open>''c2''\<close>, and nothing of the first or third query.
\<close>

theorem GetAllUsers_pages_witness:
  "GetAllUsers [''c0'' \<mapsto> client1] 0
     (map page [[(''c3'', ''x'', [''read''])],
                replicate 998 (''c1'', ''old'', [''read'']) @
                  [(''c2'', ''s2'', [''read'', ''write'']), (''c1'', ''s3cret'', [''read''])],
                replicate 1000 (''c4'', ''y'', [''read''])]) =
   Some (Loaded [''c0'' \<mapsto> client1,
                 ''c1'' \<mapsto> \<lparr>ClientSecret = ''s3cret'', Scopes = [''read''], Tokens = ['''']\<rparr>,
                 ''c2'' \<mapsto> \<lparr>ClientSecret = ''s2'', Scopes = [''read'', ''write''],
                            Tokens = ['''', '''']\<rparr>] 1)"
proof -
  have "[''c0'' \<mapsto> client1] ++ map_of (rev (page_users
          (replicate 998 (''c1'', ''old'', [''read'']) @
             [(''c2'', ''s2'', [''read'', ''write'']), (''c1'', ''s3cret'', [''read''])]))) =
        [''c0'' \<mapsto> client1,
         ''c1'' \<mapsto> \<lparr>ClientSecret = ''s3cret'', Scopes = [''read''], Tokens = ['''']\<rparr>,
         ''c2'' \<mapsto> \<lparr>ClientSecret = ''s2'', Scopes = [''read'', ''write''],
                    Tokens = ['''', '''']\<rparr>]"
    by (auto simp: fun_eq_iff page_users_def map_add_def map_of_replicate split: option.splits)
  with GetAllUsers_pages [of "[''c0'' \<mapsto> client1]" 0
      "[[(''c3'', ''x'', [''read''])],
        replicate 998 (''c1'', ''old'', [''read'']) @
          [(''c2'', ''s2'', [''read'', ''write'']), (''c1'', ''s3cret'', [''read''])],
        replicate 1000 (''c4'', ''y'', [''read''])]"]
  show ?thesis by simp
qed

lemma store_users_wf:
  "registry_wf us \<Longrightarrow> \<forall>p\<in>set usrs. length (Tokens (snd p)) = length (Scopes (snd p)) \<Longrightarrow>
     registry_wf (store_users us usrs)"
proof (induction us usrs rule: store_users.induct)
  case (1 us)
  then show ?case by simp
next
  case (2 us uid user usrs)
  from "2.prems" have wf: "registry_wf (us(uid \<mapsto> user))"
    by (simp add: registry_wf_def)
  from "2.prems"(2) have rest: "\<forall>p\<in>set usrs. length (Tokens (snd p)) = length (Scopes (snd p))"
    by simp
  from "2.IH" [OF wf rest] show ?case by (simp only: store_users.simps)
qed

lemma scan_rows_wf:
  "scan_rows rs = Some usrs \<Longrightarrow>
     \<forall>p\<in>set usrs. length (Tokens (snd p)) = length (Scopes (snd p))"
proof (induction rs arbitrary: usrs rule: scan_rows.induct)
  case 1
  then show ?case by simp
next
  case (2 rs)
  then show ?case by simp
next
  case (3 uid secret scopes rs)
  from "3.prems" obtain usrs' where u: "scan_rows rs = Some usrs'"
    "usrs = (uid, \<lparr>ClientSecret = secret, Scopes = scopes,
                    Tokens = replicate (length scopes) ''''\<rparr>) # usrs'"
    by (auto split: option.splits)
  from "3.IH" [OF u(1)] u(2) show ?case by simp
qed

lemma GetAllUsers_wf:
  "registry_wf us \<Longrightarrow> GetAllUsers us n qs = Some (Loaded us' m) \<Longrightarrow> registry_wf us'"
proof (induction us n qs rule: GetAllUsers.induct)
  case (4 us n rs qs)
  show ?case
  proof (cases "scan_rows rs")
    case None
    with "4.prems" show ?thesis by simp
  next
    case (Some usrs)
    show ?thesis
    proof (cases "length usrs = 1000")
      case True
      with Some "4.prems" have "us' = store_users us usrs" by simp
      with store_users_wf [OF "4.prems"(1) scan_rows_wf [OF Some]] show ?thesis by simp
    next
      case False
      with Some "4.prems" "4.IH" show ?thesis by simp
    qed
  qed
qed simp_all

text \<open>
  Whatever the answers of the database, errors included: when \<^verbatim>\<open>GetAllUsers\<close> returns,
  one of the queries gave exactly 1000 rows that all scanned, and the registry is the
  one before the call with the users of that query stored.
\<close>

lemma GetAllUsers_returns:
  "GetAllUsers us n qs = Some (Loaded us' m) \<Longrightarrow>
     \<exists>rs usrs. QueryRows rs \<in> set qs \<and> scan_rows rs = Some usrs \<and> length usrs = 1000 \<and>
       us' = store_users us usrs"
proof (induction us n qs rule: GetAllUsers.induct)
  case (4 us n rs qs)
  show ?case
  proof (cases "scan_rows rs")
    case None
    with "4.prems" show ?thesis by simp
  next
    case (Some usrs)
    show ?thesis
    proof (cases "length usrs = 1000")
      case True
      with Some "4.prems" have "us' = store_users us usrs" by simp
      with Some True show ?thesis by auto
    next
      case False
      with Some "4.prems" "4.IH" [OF Some False] show ?thesis by auto
    qed
  qed
qed auto

lemma store_users_empty_slots:
  "\<forall>cid u. us cid = Some u \<longrightarrow> set (Tokens u) \<subseteq> {''''} \<Longrightarrow>
   \<forall>p\<in>set usrs. set (Tokens (snd p)) \<subseteq> {''''} \<Longrightarrow>
     \<forall>cid u. store_users us usrs cid = Some u \<longrightarrow> set (Tokens u) \<subseteq> {''''}"
proof (induction us usrs rule: store_users.induct)
  case (1 us)
  then show ?case by simp
next
  case (2 us uid user usrs)
  from "2.prems" have a: "\<forall>cid u. (us(uid \<mapsto> user)) cid = Some u \<longrightarrow> set (Tokens u) \<subseteq> {''''}"
    by simp
  from "2.prems"(2) have b: "\<forall>p\<in>set usrs. set (Tokens (snd p)) \<subseteq> {''''}"
    by simp
  from "2.IH" [OF a b] show ?case by (simp only: store_users.simps)
qed

lemma scan_rows_empty_slots:
  "scan_rows rs = Some usrs \<Longrightarrow> \<forall>p\<in>set usrs. set (Tokens (snd p)) \<subseteq> {''''}"
proof (induction rs arbitrary: usrs rule: scan_rows.induct)
  case 1
  then show ?case by simp
next
  case (2 rs)
  then show ?case by simp
next
  case (3 uid secret scopes rs)
  from "3.prems" obtain usrs' where u: "scan_rows rs = Some usrs'"
    "usrs = (uid, \<lparr>ClientSecret = secret, Scopes = scopes,
                    Tokens = replicate (length scopes) ''''\<rparr>) # usrs'"
    by (auto split: option.splits)
  from "3.IH" [OF u(1)] u(2) show ?case by (auto simp: set_replicate_conv_if)
qed

text \<open>
  The state at the end of startup: the registry \<^verbatim>\<open>GetAllUsers\<close> has loaded into the
  empty map, no cached token, and a table with one row per token value. It satisfies the
  invariant of the token service.
\<close>

lemma startup_store_inv:
  assumes load: "GetAllUsers Map.empty 0 qs = Some (Loaded us n)"
    and rows: "distinct (map access_token rows)"
  shows "store_inv \<lparr>users = us, tokens_cache = Map.empty, token_table = rows\<rparr>"
proof -
  have wf: "registry_wf us"
    using GetAllUsers_wf [OF _ load] by (simp add: registry_wf_def)
  from GetAllUsers_returns [OF load] obtain rs usrs where
    u: "scan_rows rs = Some usrs" "us = store_users Map.empty usrs" by blast
  from store_users_empty_slots [OF _ scan_rows_empty_slots [OF u(1)], of Map.empty] u(2)
  have "\<forall>cid u. us cid = Some u \<longrightarrow> (\<forall>t\<in>set (Tokens u). t = '''')"
    by auto
  from startup_inv [OF rows wf this] show ?thesis .
qed

end
